theory Spec2Isabelle
  imports Main "HOL-Library.Word"
begin

section \<open>Geometry values of the widget toolkit\<close>

text \<open>
  The toolkit's geometry classes are C++ objects whose coordinates are C \<open>int\<close>s: 32-bit
  two's complement values, modelled as \<^typ>\<open>32 word\<close>. What Python reads from them
  (\<open>rect.x()\<close>, \<open>size.width()\<close>, ...) is a Python integer, unbounded, modelled as
  \<^typ>\<open>int\<close>; \<open>sint\<close> is that reading.

  \<^item> \<^verbatim>\<open>QSize(w, h)\<close>: \<^verbatim>\<open>width()\<close>, \<^verbatim>\<open>height()\<close>.
  \<^item> \<^verbatim>\<open>QPoint(x, y)\<close>.
  \<^item> \<^verbatim>\<open>QRect\<close> stores the coordinates of its top-left and bottom-right pixels. Both
    constructors, \<^verbatim>\<open>QRect(x, y, w, h)\<close> and \<^verbatim>\<open>QRect(QPoint, QSize)\<close>, compute the second
    pair as \<open>x + w - 1\<close> and \<open>y + h - 1\<close> in C arithmetic, which wraps around.
    \<^verbatim>\<open>right()\<close> returns the stored right column: the toolkit documents that, for
    historical reasons, it is \<^verbatim>\<open>left() + width() - 1\<close> and not \<^verbatim>\<open>x() + width()\<close>.
    \<^verbatim>\<open>width()\<close> is computed back as \<open>x2 - x1 + 1\<close>.

  When Python passes an integer to a constructor, the binding converts it to a C \<open>int\<close>
  and raises \<open>OverflowError\<close> if it does not fit. \<open>new_QPoint\<close> is the call
  \<^verbatim>\<open>QPoint(x, y)\<close> on Python integers.
\<close>

type_synonym c_int = "32 word"

datatype exception = IndexError | OverflowError | OSError string | UnicodeError string

definition in_c_int :: "int \<Rightarrow> bool" where
  "in_c_int i = (- 2147483648 \<le> i \<and> i \<le> 2147483647)"

datatype QSize = QSize (size_w: c_int) (size_h: c_int)

definition width :: "QSize \<Rightarrow> int" where
  "width s = sint (size_w s)"

definition height :: "QSize \<Rightarrow> int" where
  "height s = sint (size_h s)"

datatype QPoint = QPoint (point_x: c_int) (point_y: c_int)

definition new_QPoint :: "int \<Rightarrow> int \<Rightarrow> exception + QPoint" where
  "new_QPoint x y =
     (if in_c_int x \<and> in_c_int y then Inr (QPoint (word_of_int x) (word_of_int y))
      else Inl OverflowError)"

datatype QRect = Corners (left_c: c_int) (top_c: c_int) (right_c: c_int) (bottom_c: c_int)

definition QRect :: "c_int \<Rightarrow> c_int \<Rightarrow> c_int \<Rightarrow> c_int \<Rightarrow> QRect" where
  "QRect x y w h = Corners x y (x + w - 1) (y + h - 1)"

definition QRect_at :: "QPoint \<Rightarrow> QSize \<Rightarrow> QRect" where
  "QRect_at p s =
     Corners (point_x p) (point_y p) (point_x p + size_w s - 1) (point_y p + size_h s - 1)"

definition rect_x :: "QRect \<Rightarrow> int" where
  "rect_x r = sint (left_c r)"

definition rect_y :: "QRect \<Rightarrow> int" where
  "rect_y r = sint (top_c r)"

definition right :: "QRect \<Rightarrow> int" where
  "right r = sint (right_c r)"

definition rect_width :: "QRect \<Rightarrow> int" where
  "rect_width r = sint (right_c r - left_c r + 1)"

section \<open>Layout items and the FlowLayout class\<close>

text \<open>
  A layout item exposes its preferred size (\<^verbatim>\<open>item.sizeHint()\<close>) and can be assigned a
  rectangle (\<^verbatim>\<open>item.setGeometry(rect)\<close>). The assigned rectangle is the item's mutable
  state; \<open>setGeometry\<close> records the rectangle it is given.
\<close>

record item =
  sizeHint :: QSize
  geometry :: QRect

definition setGeometry :: "item \<Rightarrow> QRect \<Rightarrow> item" where
  "setGeometry it r = it\<lparr>geometry := r\<rparr>"

text \<open>
  \<^verbatim>\<open>
  def _doLayout(self, rect, testOnly):
      x, y, lineHeight = rect.x(), rect.y(), 0
      for item in self.itemList:
          w = item.sizeHint().width()
          h = item.sizeHint().height()
          if x + w > rect.right() and lineHeight:
              x = rect.x()
              y += lineHeight
              lineHeight = 0
          if not testOnly:
              item.setGeometry(QRect(QPoint(x, y), item.sizeHint()))
          x += w
          lineHeight = max(lineHeight, h)
      return y + lineHeight - rect.y()
  \<close>
  \<open>x\<close>, \<open>y\<close> and \<open>lineHeight\<close> are Python integers and do not overflow; \<open>and lineHeight\<close>
  is Python truthiness of an integer, \<open>lineHeight \<noteq> 0\<close>. The one statement that can raise
  is the commit branch: \<open>QPoint(x, y)\<close> raises \<open>OverflowError\<close> when \<open>x\<close> or \<open>y\<close> is
  not a C \<open>int\<close>. \<open>place\<close> is that branch (\<open>if not testOnly: ...\<close>).

  The loop is a recursion over the item list that threads the three local variables. It
  returns the items, as updated, with the final variables; or, when \<open>QPoint\<close> raises, the
  exception with the items as they are at that point (those placed before keep their new
  geometry, the others are untouched).
\<close>

definition place :: "bool \<Rightarrow> item \<Rightarrow> int \<Rightarrow> int \<Rightarrow> exception + item" where
  "place testOnly it x y =
     (if \<not> testOnly
      then (case new_QPoint x y of
              Inl e \<Rightarrow> Inl e
            | Inr p \<Rightarrow> Inr (setGeometry it (QRect_at p (sizeHint it))))
      else Inr it)"

fun doLayout_loop ::
  "QRect \<Rightarrow> bool \<Rightarrow> int \<Rightarrow> int \<Rightarrow> int \<Rightarrow> item list
     \<Rightarrow> (exception \<times> item list) + (item list \<times> int \<times> int \<times> int)" where
  "doLayout_loop rect testOnly x y lineHeight [] = Inr ([], x, y, lineHeight)"
| "doLayout_loop rect testOnly x y lineHeight (it # its) =
     (let w = width (sizeHint it);
          h = height (sizeHint it);
          wrap = (x + w > right rect \<and> lineHeight \<noteq> 0);
          x1 = (if wrap then rect_x rect else x);
          y1 = (if wrap then y + lineHeight else y);
          lineHeight1 = (if wrap then 0 else lineHeight)
      in (case place testOnly it x1 y1 of
            Inl e \<Rightarrow> Inl (e, it # its)
          | Inr it' \<Rightarrow>
              (case doLayout_loop rect testOnly (x1 + w) y1 (max lineHeight1 h) its of
                 Inl (e, its') \<Rightarrow> Inl (e, it' # its')
               | Inr (its', xf, yf, lineHeightf) \<Rightarrow> Inr (it' # its', xf, yf, lineHeightf))))"

definition doLayout ::
  "item list \<Rightarrow> QRect \<Rightarrow> bool \<Rightarrow> (exception \<times> item list) + (item list \<times> int)" where
  "doLayout itemList rect testOnly =
     (case doLayout_loop rect testOnly (rect_x rect) (rect_y rect) 0 itemList of
        Inl (e, itemList') \<Rightarrow> Inl (e, itemList')
      | Inr (itemList', x, y, lineHeight) \<Rightarrow> Inr (itemList', y + lineHeight - rect_y rect))"

text \<open>
  The loop has no variable for the number of items on the current row; the property that
  relates \<open>lineHeight\<close> to it needs one. \<open>doLayout_rows\<close> runs the same loop on the
  same three variables and counts, in a fourth, the items placed since the last wrap: the
  count is \<open>0\<close> after a wrap and grows by one with every placed item.
\<close>

fun doLayout_rows ::
  "QRect \<Rightarrow> int \<Rightarrow> int \<Rightarrow> int \<Rightarrow> nat \<Rightarrow> item list \<Rightarrow> (int \<times> int \<times> int) \<times> nat" where
  "doLayout_rows rect x y lineHeight onRow [] = ((x, y, lineHeight), onRow)"
| "doLayout_rows rect x y lineHeight onRow (it # its) =
     (let w = width (sizeHint it);
          h = height (sizeHint it);
          wrap = (x + w > right rect \<and> lineHeight \<noteq> 0);
          x1 = (if wrap then rect_x rect else x);
          y1 = (if wrap then y + lineHeight else y);
          lineHeight1 = (if wrap then 0 else lineHeight);
          onRow1 = (if wrap then 0 else onRow)
      in doLayout_rows rect (x1 + w) y1 (max lineHeight1 h) (Suc onRow1) its)"

subsection \<open>The item list\<close>

text \<open>
  \<^verbatim>\<open>
  def count(self): return len(self.itemList)
  def itemAt(self, i): return self.itemList[i] if 0 <= i < len(self.itemList) else None
  def takeAt(self, i): return self.itemList.pop(i) if 0 <= i < len(self.itemList) else None
  \<close>
  Python's \<open>list[i]\<close> and \<open>list.pop(i)\<close> count a negative index from the end and raise
  \<open>IndexError\<close> out of range; both are modelled with that behaviour, so that the guard
  of \<open>itemAt\<close> and \<open>takeAt\<close> is what keeps the error away. \<open>takeAt\<close> returns its
  result together with the item list it leaves behind.
\<close>

definition getitem :: "'a list \<Rightarrow> int \<Rightarrow> exception + 'a" where
  "getitem xs i =
     (let j = (if i < 0 then i + int (length xs) else i)
      in if 0 \<le> j \<and> j < int (length xs) then Inr (xs ! nat j) else Inl IndexError)"

fun pop_at :: "'a list \<Rightarrow> nat \<Rightarrow> ('a \<times> 'a list) option" where
  "pop_at [] n = None"
| "pop_at (x # xs) 0 = Some (x, xs)"
| "pop_at (x # xs) (Suc n) = (case pop_at xs n of None \<Rightarrow> None | Some (v, r) \<Rightarrow> Some (v, x # r))"

definition pop :: "'a list \<Rightarrow> int \<Rightarrow> exception + ('a \<times> 'a list)" where
  "pop xs i =
     (let j = (if i < 0 then i + int (length xs) else i)
      in if j < 0 then Inl IndexError
         else (case pop_at xs (nat j) of None \<Rightarrow> Inl IndexError | Some r \<Rightarrow> Inr r))"

definition count :: "'a list \<Rightarrow> int" where
  "count itemList = int (length itemList)"

definition itemAt :: "'a list \<Rightarrow> int \<Rightarrow> exception + 'a option" where
  "itemAt itemList i =
     (if 0 \<le> i \<and> i < int (length itemList)
      then (case getitem itemList i of Inl e \<Rightarrow> Inl e | Inr v \<Rightarrow> Inr (Some v))
      else Inr None)"

definition takeAt :: "'a list \<Rightarrow> int \<Rightarrow> exception + ('a option \<times> 'a list)" where
  "takeAt itemList i =
     (if 0 \<le> i \<and> i < int (length itemList)
      then (case pop itemList i of Inl e \<Rightarrow> Inl e | Inr (v, itemList') \<Rightarrow> Inr (Some v, itemList'))
      else Inr (None, itemList))"

section \<open>The mirror file and the docker\<close>

subsection \<open>Python strings\<close>

text \<open>
  A Python \<open>str\<close> is a sequence of Unicode code points; a character is modelled by its
  code point (its \<open>ord\<close>, an integer), so that every label the host can deliver is covered.
  \<open>ascii\<close> writes such a string from an ASCII literal.

  \<open>str.strip()\<close> removes leading and trailing whitespace. Whitespace is what
  \<open>str.isspace()\<close> accepts: U+0009..U+000D, U+001C..U+0020, U+0085, U+00A0, U+1680,
  U+2000..U+200A, U+2028, U+2029, U+202F, U+205F and U+3000.
\<close>

type_synonym str = "int list"

definition ascii :: "string \<Rightarrow> str" where
  "ascii s = map of_char s"

abbreviation LF :: int where
  "LF \<equiv> 10"

abbreviation CR :: int where
  "CR \<equiv> 13"

definition isspace :: "int \<Rightarrow> bool" where
  "isspace c =
     ((9 \<le> c \<and> c \<le> 13) \<or> (28 \<le> c \<and> c \<le> 32) \<or> c = 133 \<or> c = 160 \<or> c = 5760
      \<or> (8192 \<le> c \<and> c \<le> 8202) \<or> c = 8232 \<or> c = 8233 \<or> c = 8239 \<or> c = 8287
      \<or> c = 12288)"

definition strip :: "str \<Rightarrow> str" where
  "strip s = rev (dropWhile isspace (rev (dropWhile isspace s)))"

subsection \<open>Text files\<close>

text \<open>
  Both \<open>open\<close> calls use text mode with the default \<open>newline=None\<close>. On writing, every
  \<open>'\n'\<close> is translated to \<open>os.linesep\<close>; on reading, \<open>'\r\n'\<close> and a lone \<open>'\r'\<close> are
  translated to \<open>'\n'\<close>. Iterating over the file yields its lines, each with its
  terminating \<open>'\n'\<close> (the last one without, when the text does not end in \<open>'\n'\<close>).
\<close>

datatype platform = POSIX | Windows



fun universal_newlines :: "str \<Rightarrow> str" where
  "universal_newlines [] = []"
| "universal_newlines [c] = [if c = CR then LF else c]"
| "universal_newlines (c # d # cs) =
     (if c = CR \<and> d = LF then LF # universal_newlines cs
      else if c = CR then LF # universal_newlines (d # cs)
      else c # universal_newlines (d # cs))"

fun file_lines :: "str \<Rightarrow> str list" where
  "file_lines [] = []"
| "file_lines (c # cs) =
     (if c = LF then [LF] # file_lines cs
      else (case file_lines cs of [] \<Rightarrow> [[c]] | l # ls \<Rightarrow> (c # l) # ls))"

text \<open>
  The file system as far as the docker sees it: the text stored in \<open>tags.txt\<close> (\<open>None\<close>
  when the file does not exist), the platform, and whether the environment makes the next
  write or read raise. A failing write comes with what it leaves on disk.
\<close>

record filesystem =
  tags_file :: "str option"
  os :: platform
  write_error :: "(exception \<times> str option) option"
  read_error :: "exception option"

fun exception_str :: "exception \<Rightarrow> string" where
  "exception_str IndexError = ''list index out of range''"
| "exception_str OverflowError = ''value must be in the range -2147483648 to 2147483647''"
| "exception_str (OSError m) = m"
| "exception_str (UnicodeError m) = m"


text \<open>
  \<^verbatim>\<open>
  with open(self.tags_file, "r", encoding="utf-8") as f:
      tags = [l.strip() for l in f if l.strip()]
  \<close>
\<close>

definition read_tags_file :: "filesystem \<Rightarrow> exception + str list" where
  "read_tags_file fs =
     (case read_error fs of
        Some e \<Rightarrow> Inl e
      | None \<Rightarrow>
          (case tags_file fs of
             None \<Rightarrow> Inl (OSError ''No such file or directory'')
           | Some content \<Rightarrow>
               Inr (map strip (filter (\<lambda>l. strip l \<noteq> []) (file_lines (universal_newlines content))))))"

subsection \<open>The docker\<close>

text \<open>
  The widgets are objects with identity: a button carries an identifier, and the flow
  layout, the button group and the deferred deletions refer to buttons by identifier.
  \<open>fresh\<close> is the identifier the next created widget gets. \<open>printed\<close> collects the lines
  written by \<open>print\<close>. \<open>checked\<close> holds the argument of the last \<open>setChecked\<close> call.

  The host's combo box is its list of entries and its current index. The binding gives
  \<open>QComboBox\<close> a \<open>__len__\<close> (its \<open>count()\<close>), so Python's truth test \<open>not self._combo\<close>
  holds when the attribute is \<open>None\<close> and also when the combo box has no entries.
\<close>

record QPushButton =
  btn_id :: nat
  btn_text :: str
  checkable :: bool
  checked :: bool

record QComboBox =
  entries :: "str list"
  currentIndex :: int

definition combo_count :: "QComboBox \<Rightarrow> int" where
  "combo_count c = int (length (entries c))"

definition itemText :: "QComboBox \<Rightarrow> int \<Rightarrow> str" where
  "itemText c i = (if 0 \<le> i \<and> i < combo_count c then entries c ! nat i else [])"

definition currentText :: "QComboBox \<Rightarrow> str" where
  "currentText c = itemText c (currentIndex c)"

fun truthy :: "QComboBox option \<Rightarrow> bool" where
  "truthy None = False"
| "truthy (Some c) = (combo_count c \<noteq> 0)"

record docker =
  buttons :: "QPushButton list"
  flow :: "nat list"
  button_group :: "nat list"
  deleted_later :: "nat list"
  combo :: "QComboBox option"
  changing :: bool
  fresh :: nat
  printed :: "string list"

definition DOCKER_TITLE :: string where
  "DOCKER_TITLE = ''Brush Tag Selector''"

definition print :: "string \<Rightarrow> docker \<Rightarrow> docker" where
  "print line d = d\<lparr>printed := printed d @ [line]\<rparr>"


text \<open>
  \<^verbatim>\<open>
  def _sync_button_state(self, text):
      for b in self.buttons:
          b.setChecked(b.text() == text)
  \<close>
\<close>

definition sync_button_state :: "str \<Rightarrow> docker \<Rightarrow> docker" where
  "sync_button_state text d =
     d\<lparr>buttons := map (\<lambda>b. b\<lparr>checked := (btn_text b = text)\<rparr>) (buttons d)\<rparr>"

text \<open>
  \<^verbatim>\<open>
  def _rebuild_buttons(self):
      for b in self.buttons:
          self.flow.removeWidget(b)
          b.deleteLater()
      self.buttons.clear()

      if not os.path.exists(self.tags_file):
          return

      try:
          with open(self.tags_file, "r", encoding="utf-8") as f:
              tags = [l.strip() for l in f if l.strip()]
      except Exception as e:
          print(f"{DOCKER_TITLE}: Error reading tags.txt: {e}")
          return

      for tag in tags:
          btn = QPushButton(tag)
          btn.setCheckable(True)
          self.group.addButton(btn)
          self.flow.addWidget(btn)
          self.buttons.append(btn)

      if self._combo:
          self._sync_button_state(self._combo.currentText())
  \<close>
  \<open>removeWidget\<close> takes every item of the widget out of the layout. The result is a sum:
  \<open>Inl\<close> would be an exception leaving \<open>_rebuild_buttons\<close>.
\<close>

definition remove_button :: "QPushButton \<Rightarrow> docker \<Rightarrow> docker" where
  "remove_button b d =
     d\<lparr>flow := removeAll (btn_id b) (flow d), deleted_later := deleted_later d @ [btn_id b]\<rparr>"

definition add_button :: "str \<Rightarrow> docker \<Rightarrow> docker" where
  "add_button tag d =
     (let btn = \<lparr>btn_id = fresh d, btn_text = tag, checkable = True, checked = False\<rparr>
      in d\<lparr>fresh := Suc (fresh d),
           button_group := button_group d @ [btn_id btn],
           flow := flow d @ [btn_id btn],
           buttons := buttons d @ [btn]\<rparr>)"

definition rebuild_buttons :: "filesystem \<Rightarrow> docker \<Rightarrow> exception + docker" where
  "rebuild_buttons fs d =
     (let d1 = (fold remove_button (buttons d) d)\<lparr>buttons := []\<rparr>
      in if tags_file fs = None then Inr d1
         else (case read_tags_file fs of
                 Inl e \<Rightarrow> Inr (print (DOCKER_TITLE @ '': Error reading tags.txt: '' @ exception_str e) d1)
               | Inr tags \<Rightarrow>
                   (let d2 = fold add_button tags d1
                    in if truthy (combo d2)
                       then (case combo d2 of
                               None \<Rightarrow> Inr d2
                             | Some c \<Rightarrow> Inr (sync_button_state (currentText c) d2))
                       else Inr d2)))"

section \<open>Properties of the layout loop\<close>

subsection \<open>C integers, and one iteration of the loop\<close>

lemma in_c_int_sint: "in_c_int (sint (w :: c_int))"
  unfolding in_c_int_def using sint_ge [of w] sint_lt [of w] by simp

lemma sint_word_of_int_c_int: "in_c_int i \<Longrightarrow> sint (word_of_int i :: c_int) = i"
  unfolding in_c_int_def by (simp add: sint_sbintrunc' signed_take_bit_int_eq_self)

lemma place_True: "place True it x y = Inr it"
  by (simp add: place_def)

lemma place_False:
  "place False it x y =
     (if in_c_int x \<and> in_c_int y
      then Inr (it\<lparr>geometry := QRect_at (QPoint (word_of_int x) (word_of_int y)) (sizeHint it)\<rparr>)
      else Inl OverflowError)"
  by (simp add: place_def new_QPoint_def setGeometry_def)

lemma place_Inl: "place t it x y = Inl e \<Longrightarrow> e = OverflowError"
  by (cases t) (simp_all add: place_True place_False split: if_splits)

lemma place_Inr_sizeHint: "place t it x y = Inr it' \<Longrightarrow> sizeHint it' = sizeHint it"
  by (cases t) (auto simp add: place_True place_False split: if_splits)

lemma doLayout_loop_Cons:
  fixes rect :: QRect and x y lh :: int and it :: item
  defines "wrap \<equiv> x + width (sizeHint it) > right rect \<and> lh \<noteq> 0"
  defines "x1 \<equiv> if wrap then rect_x rect else x"
  defines "y1 \<equiv> if wrap then y + lh else y"
  defines "lh1 \<equiv> if wrap then 0 else lh"
  shows "doLayout_loop rect t x y lh (it # its) =
     (case place t it x1 y1 of
        Inl e \<Rightarrow> Inl (e, it # its)
      | Inr it' \<Rightarrow>
          (case doLayout_loop rect t (x1 + width (sizeHint it)) y1 (max lh1 (height (sizeHint it))) its of
             Inl (e, its') \<Rightarrow> Inl (e, it' # its')
           | Inr (its', v) \<Rightarrow> Inr (it' # its', v)))"
  unfolding wrap_def x1_def y1_def lh1_def
  by (simp add: Let_def split: sum.splits prod.splits)

declare doLayout_loop.simps(2) [simp del]

lemma doLayout_loop_step:
  "\<exists>x1 y1 x' lh'.
     (\<forall>t its. doLayout_loop rect t x y lh (it # its) =
       (case place t it x1 y1 of
          Inl e \<Rightarrow> Inl (e, it # its)
        | Inr it' \<Rightarrow>
            (case doLayout_loop rect t x' y1 lh' its of
               Inl (e, its') \<Rightarrow> Inl (e, it' # its')
             | Inr (its', v) \<Rightarrow> Inr (it' # its', v))))
     \<and> x1 = (if x + width (sizeHint it) > right rect \<and> lh \<noteq> 0 then rect_x rect else x)
     \<and> y1 = (if x + width (sizeHint it) > right rect \<and> lh \<noteq> 0 then y + lh else y)
     \<and> x' = x1 + width (sizeHint it)
     \<and> lh' = max (if x + width (sizeHint it) > right rect \<and> lh \<noteq> 0 then 0 else lh)
                 (height (sizeHint it))"
  by (simp add: doLayout_loop_Cons)

lemma rect_x_in_c_int: "in_c_int (rect_x rect)"
  by (simp add: rect_x_def in_c_int_sint)

lemma rect_y_in_c_int: "in_c_int (rect_y rect)"
  by (simp add: rect_y_def in_c_int_sint)

lemma right_in_c_int: "in_c_int (right rect)"
  by (simp add: right_def in_c_int_sint)

lemma geometry_placed:
  assumes "in_c_int px" and "in_c_int py"
  shows "rect_x (QRect_at (QPoint (word_of_int px) (word_of_int py)) s) = px"
    and "rect_y (QRect_at (QPoint (word_of_int px) (word_of_int py)) s) = py"
  using assms by (simp_all add: rect_x_def rect_y_def QRect_at_def sint_word_of_int_c_int)

subsection \<open>What the loop returns and what it raises\<close>

lemma doLayout_loop_measure:
  "\<exists>v. doLayout_loop rect True x y lh its = Inr (its, v)"
proof (induction its arbitrary: x y lh)
  case Nil
  show ?case by simp
next
  case (Cons it its)
  obtain x1 y1 x' lh' where
    step: "\<And>t. doLayout_loop rect t x y lh (it # its) =
       (case place t it x1 y1 of
          Inl e \<Rightarrow> Inl (e, it # its)
        | Inr it' \<Rightarrow>
            (case doLayout_loop rect t x' y1 lh' its of
               Inl (e, its') \<Rightarrow> Inl (e, it' # its')
             | Inr (its', v) \<Rightarrow> Inr (it' # its', v)))"
    using doLayout_loop_step [of rect x y lh it] by blast
  from Cons [of x' y1 lh'] obtain v where "doLayout_loop rect True x' y1 lh' its = Inr (its, v)"
    by blast
  then have "doLayout_loop rect True x y lh (it # its) = Inr (it # its, v)"
    by (simp add: step place_True)
  then show ?case by blast
qed

lemma doLayout_loop_commit_measure:
  "doLayout_loop rect False x y lh its = Inr (out, v) \<Longrightarrow>
   doLayout_loop rect True x y lh its = Inr (its, v)"
proof (induction its arbitrary: x y lh out)
  case Nil
  then show ?case by simp
next
  case (Cons it its)
  obtain x1 y1 x' lh' where
    step: "\<And>t. doLayout_loop rect t x y lh (it # its) =
       (case place t it x1 y1 of
          Inl e \<Rightarrow> Inl (e, it # its)
        | Inr it' \<Rightarrow>
            (case doLayout_loop rect t x' y1 lh' its of
               Inl (e, its') \<Rightarrow> Inl (e, it' # its')
             | Inr (its', v) \<Rightarrow> Inr (it' # its', v)))"
    using doLayout_loop_step [of rect x y lh it] by blast
  from Cons.prems obtain out' where "doLayout_loop rect False x' y1 lh' its = Inr (out', v)"
    unfolding step by (auto split: sum.splits prod.splits)
  from Cons.IH [OF this] show ?case
    by (simp add: step place_True)
qed

lemma doLayout_loop_Inl:
  "doLayout_loop rect t x y lh its = Inl (e, r) \<Longrightarrow>
   e = OverflowError \<and> \<not> t \<and> length r = length its \<and> map sizeHint r = map sizeHint its"
proof (induction its arbitrary: x y lh r)
  case Nil
  then show ?case by simp
next
  case (Cons it its)
  obtain x1 y1 x' lh' where
    step: "\<And>t. doLayout_loop rect t x y lh (it # its) =
       (case place t it x1 y1 of
          Inl e \<Rightarrow> Inl (e, it # its)
        | Inr it' \<Rightarrow>
            (case doLayout_loop rect t x' y1 lh' its of
               Inl (e, its') \<Rightarrow> Inl (e, it' # its')
             | Inr (its', v) \<Rightarrow> Inr (it' # its', v)))"
    using doLayout_loop_step [of rect x y lh it] by blast
  from doLayout_loop_measure [of rect x y lh "it # its"] Cons.prems have t: "\<not> t"
    by (cases t) auto
  show ?case
  proof (cases "place t it x1 y1")
    case (Inl e')
    with Cons.prems place_Inl [OF Inl] t show ?thesis
      by (simp add: step)
  next
    case (Inr it')
    with Cons.prems obtain r' where r': "doLayout_loop rect t x' y1 lh' its = Inl (e, r')" "r = it' # r'"
      unfolding step by (auto split: sum.splits prod.splits)
    from Cons.IH [OF r'(1)] r'(2) place_Inr_sizeHint [OF Inr] show ?thesis
      by simp
  qed
qed

lemma doLayout_loop_Inr:
  "doLayout_loop rect t x y lh its = Inr (out, v) \<Longrightarrow>
   length out = length its \<and> map sizeHint out = map sizeHint its"
proof (induction its arbitrary: x y lh out)
  case Nil
  then show ?case by auto
next
  case (Cons it its)
  obtain x1 y1 x' lh' where
    step: "\<And>t. doLayout_loop rect t x y lh (it # its) =
       (case place t it x1 y1 of
          Inl e \<Rightarrow> Inl (e, it # its)
        | Inr it' \<Rightarrow>
            (case doLayout_loop rect t x' y1 lh' its of
               Inl (e, its') \<Rightarrow> Inl (e, it' # its')
             | Inr (its', v) \<Rightarrow> Inr (it' # its', v)))"
    using doLayout_loop_step [of rect x y lh it] by blast
  from Cons.prems obtain it' out' where
    p: "place t it x1 y1 = Inr it'" and r: "doLayout_loop rect t x' y1 lh' its = Inr (out', v)"
    and o: "out = it' # out'"
    unfolding step by (auto split: sum.splits prod.splits)
  from Cons.IH [OF r] o place_Inr_sizeHint [OF p] show ?case
    by simp
qed

lemma doLayout_loop_append:
  "doLayout_loop rect t x y lh as = Inr (as', x', y', lh') \<Longrightarrow>
   doLayout_loop rect t x y lh (as @ bs) =
     (case doLayout_loop rect t x' y' lh' bs of
        Inl (e, r) \<Rightarrow> Inl (e, as' @ r)
      | Inr (bs', v) \<Rightarrow> Inr (as' @ bs', v))"
proof (induction as arbitrary: x y lh as')
  case Nil
  then show ?case by (auto split: sum.splits prod.splits)
next
  case (Cons a as)
  obtain x1 y1 xn lhn where
    step: "\<And>t its. doLayout_loop rect t x y lh (a # its) =
       (case place t a x1 y1 of
          Inl e \<Rightarrow> Inl (e, a # its)
        | Inr it' \<Rightarrow>
            (case doLayout_loop rect t xn y1 lhn its of
               Inl (e, its') \<Rightarrow> Inl (e, it' # its')
             | Inr (its', v) \<Rightarrow> Inr (it' # its', v)))"
    using doLayout_loop_step [of rect x y lh a] by blast
  from Cons.prems obtain a' as'' where
    p: "place t a x1 y1 = Inr a'" and r: "doLayout_loop rect t xn y1 lhn as = Inr (as'', x', y', lh')"
    and o: "as' = a' # as''"
    unfolding step by (auto split: sum.splits prod.splits)
  from Cons.IH [OF r] have
    "doLayout_loop rect t xn y1 lhn (as @ bs) =
       (case doLayout_loop rect t x' y' lh' bs of
          Inl (e, r) \<Rightarrow> Inl (e, as'' @ r)
        | Inr (bs', v) \<Rightarrow> Inr (as'' @ bs', v))" .
  then show ?case
    unfolding append_Cons step p o by (simp split: sum.splits prod.splits)
qed

lemma sum_widths_nonneg:
  "\<forall>it \<in> set its. 0 \<le> width (sizeHint it) \<Longrightarrow> 0 \<le> sum_list (map (\<lambda>p. width (sizeHint p)) its)"
  by (induction its) simp_all

lemma sum_heights_nonneg:
  "\<forall>it \<in> set its. 0 \<le> height (sizeHint it) \<Longrightarrow> 0 \<le> sum_list (map (\<lambda>p. height (sizeHint p)) its)"
  by (induction its) simp_all

lemma doLayout_loop_commit_returns:
  "\<forall>p \<in> set its. 0 \<le> width (sizeHint p) \<and> 0 \<le> height (sizeHint p) \<Longrightarrow>
   rect_x rect \<le> x \<Longrightarrow> x + sum_list (map (\<lambda>p. width (sizeHint p)) its) \<le> 2147483647 \<Longrightarrow>
   rect_y rect \<le> y \<Longrightarrow> 0 \<le> lh \<Longrightarrow>
   y + lh + sum_list (map (\<lambda>p. height (sizeHint p)) its) \<le> 2147483647 \<Longrightarrow>
   \<exists>out v. doLayout_loop rect False x y lh its = Inr (out, v)"
proof (induction its arbitrary: x y lh)
  case Nil
  show ?case by simp
next
  case (Cons it its)
  obtain x1 y1 x' lh' where
    step: "\<And>t. doLayout_loop rect t x y lh (it # its) =
       (case place t it x1 y1 of
          Inl e \<Rightarrow> Inl (e, it # its)
        | Inr it' \<Rightarrow>
            (case doLayout_loop rect t x' y1 lh' its of
               Inl (e, its') \<Rightarrow> Inl (e, it' # its')
             | Inr (its', v) \<Rightarrow> Inr (it' # its', v)))"
    and x1: "x1 = (if x + width (sizeHint it) > right rect \<and> lh \<noteq> 0 then rect_x rect else x)"
    and y1: "y1 = (if x + width (sizeHint it) > right rect \<and> lh \<noteq> 0 then y + lh else y)"
    and x': "x' = x1 + width (sizeHint it)"
    and lh': "lh' = max (if x + width (sizeHint it) > right rect \<and> lh \<noteq> 0 then 0 else lh)
                 (height (sizeHint it))"
    using doLayout_loop_step [of rect x y lh it] by blast
  from Cons.prems(1) have w: "0 \<le> width (sizeHint it)" and h: "0 \<le> height (sizeHint it)"
    and rest: "\<forall>p \<in> set its. 0 \<le> width (sizeHint p) \<and> 0 \<le> height (sizeHint p)"
    by simp_all
  from rest have sw: "0 \<le> sum_list (map (\<lambda>p. width (sizeHint p)) its)"
    by (intro sum_widths_nonneg) simp
  from rest have sh: "0 \<le> sum_list (map (\<lambda>p. height (sizeHint p)) its)"
    by (intro sum_heights_nonneg) simp
  from Cons.prems(3) have xs: "x + width (sizeHint it) + sum_list (map (\<lambda>p. width (sizeHint p)) its) \<le> 2147483647"
    by simp
  from Cons.prems(6) have ys: "y + lh + height (sizeHint it) + sum_list (map (\<lambda>p. height (sizeHint p)) its) \<le> 2147483647"
    by simp
  have lo_x: "- 2147483648 \<le> rect_x rect" and lo_y: "- 2147483648 \<le> rect_y rect"
    using rect_x_in_c_int [of rect] rect_y_in_c_int [of rect] by (simp_all add: in_c_int_def)
  have "in_c_int x1"
    unfolding in_c_int_def x1 using lo_x Cons.prems(2) xs w sw by auto
  moreover have "in_c_int y1"
    unfolding in_c_int_def y1 using lo_y Cons.prems(4,5) ys h sh by auto
  ultimately obtain it' where p: "place False it x1 y1 = Inr it'"
    by (simp add: place_False)
  have a: "rect_x rect \<le> x'"
    unfolding x' x1 using Cons.prems(2) w by auto
  have b: "x' + sum_list (map (\<lambda>p. width (sizeHint p)) its) \<le> 2147483647"
    unfolding x' x1 using Cons.prems(2) xs by auto
  have c: "rect_y rect \<le> y1"
    unfolding y1 using Cons.prems(4,5) by auto
  have d: "0 \<le> lh'"
    unfolding lh' using h by auto
  have e: "y1 + lh' + sum_list (map (\<lambda>p. height (sizeHint p)) its) \<le> 2147483647"
    unfolding y1 lh' using ys h Cons.prems(5) by auto
  from Cons.IH [OF rest a b c d e] obtain out v where "doLayout_loop rect False x' y1 lh' its = Inr (out, v)"
    by blast
  with p have "doLayout_loop rect False x y lh (it # its) = Inr (it' # out, v)"
    by (simp add: step)
  then show ?case by blast
qed

subsection \<open>Where an item is placed\<close>

text \<open>
  C1. Let \<open>(x, y, lineHeight)\<close> be the loop variables when the commit-mode loop reaches item
  \<open>i\<close>, that is after the items before it have been placed. The item stays on the current
  row, at \<open>(x, y)\<close>, exactly when \<open>x\<close> plus its width does not exceed \<open>rect.right()\<close> or
  \<open>lineHeight\<close> is \<open>0\<close>; otherwise its position is \<open>x = rect.x()\<close> on a new row whose
  \<open>y\<close> is the previous row's \<open>y\<close> plus that row's line height. If that position is not a
  pair of C \<open>int\<close>s, \<open>QPoint\<close> raises \<open>OverflowError\<close> and \<open>_doLayout\<close> ends there, the
  items before it placed and the others untouched. Otherwise, whenever \<open>_doLayout\<close> returns,
  item \<open>i\<close> has the rectangle \<open>QRect(QPoint(position), sizeHint)\<close>; \<open>_doLayout\<close> raises
  nothing but \<open>OverflowError\<close>. Here \<open>rect.right()\<close> is the stored right column,
  \<open>rect.x() + width - 1\<close> in C arithmetic.
\<close>

theorem doLayout_placement_rule:
  assumes "i < length itemList"
    and "doLayout_loop rect False (rect_x rect) (rect_y rect) 0 (take i itemList)
           = Inr (placed, x, y, lineHeight)"
  shows "let stays = (x + width (sizeHint (itemList ! i)) \<le> right rect \<or> lineHeight = 0);
             px = (if stays then x else rect_x rect);
             py = (if stays then y else y + lineHeight)
         in (\<not> (in_c_int px \<and> in_c_int py) \<longrightarrow>
               doLayout itemList rect False = Inl (OverflowError, placed @ drop i itemList))
            \<and> (case doLayout itemList rect False of
                  Inl (e, r) \<Rightarrow> e = OverflowError
                | Inr (out, hgt) \<Rightarrow>
                    rect_x (geometry (out ! i)) = px \<and> rect_y (geometry (out ! i)) = py
                    \<and> geometry (out ! i) =
                        QRect_at (QPoint (word_of_int px) (word_of_int py)) (sizeHint (itemList ! i)))"
proof -
  define it where "it = itemList ! i"
  define rest where "rest = drop (Suc i) itemList"
  define px where "px = (if x + width (sizeHint it) \<le> right rect \<or> lineHeight = 0 then x else rect_x rect)"
  define py where "py = (if x + width (sizeHint it) \<le> right rect \<or> lineHeight = 0 then y else y + lineHeight)"
  from assms(1) have split: "itemList = take i itemList @ it # rest"
    unfolding it_def rest_def by (rule id_take_nth_drop)
  from assms(1) have tail: "drop i itemList = it # rest"
    unfolding it_def rest_def by (simp add: Cons_nth_drop_Suc)
  from doLayout_loop_Inr [OF assms(2)] assms(1) have len: "length placed = i"
    by simp
  have whole: "doLayout_loop rect False (rect_x rect) (rect_y rect) 0 itemList =
      (case doLayout_loop rect False x y lineHeight (it # rest) of
         Inl (e, r) \<Rightarrow> Inl (e, placed @ r)
       | Inr (bs', v) \<Rightarrow> Inr (placed @ bs', v))"
    using doLayout_loop_append [OF assms(2), of "it # rest"] split by simp
  obtain x1 y1 x' lh' where
    step: "\<And>t. doLayout_loop rect t x y lineHeight (it # rest) =
       (case place t it x1 y1 of
          Inl e \<Rightarrow> Inl (e, it # rest)
        | Inr it' \<Rightarrow>
            (case doLayout_loop rect t x' y1 lh' rest of
               Inl (e, its') \<Rightarrow> Inl (e, it' # its')
             | Inr (its', v) \<Rightarrow> Inr (it' # its', v)))"
    and x1: "x1 = (if x + width (sizeHint it) > right rect \<and> lineHeight \<noteq> 0 then rect_x rect else x)"
    and y1: "y1 = (if x + width (sizeHint it) > right rect \<and> lineHeight \<noteq> 0 then y + lineHeight else y)"
    using doLayout_loop_step [of rect x y lineHeight it] by blast
  have px: "x1 = px" unfolding x1 px_def by auto
  have py: "y1 = py" unfolding y1 py_def by auto
  have raise: "doLayout itemList rect False = Inl (OverflowError, placed @ drop i itemList)"
    if "\<not> (in_c_int px \<and> in_c_int py)"
  proof -
    from that have "place False it px py = Inl OverflowError"
      by (simp add: place_False)
    then show ?thesis
      by (simp add: doLayout_def whole step px py tail)
  qed
  have result: "case doLayout itemList rect False of
                  Inl (e, r) \<Rightarrow> e = OverflowError
                | Inr (out, hgt) \<Rightarrow>
                    rect_x (geometry (out ! i)) = px \<and> rect_y (geometry (out ! i)) = py
                    \<and> geometry (out ! i) = QRect_at (QPoint (word_of_int px) (word_of_int py)) (sizeHint it)"
  proof (cases "doLayout_loop rect False (rect_x rect) (rect_y rect) 0 itemList")
    case (Inl p)
    obtain e r where p: "p = (e, r)" by (cases p)
    from doLayout_loop_Inl [OF Inl [unfolded p]] Inl p show ?thesis
      by (simp add: doLayout_def)
  next
    case (Inr p)
    obtain out xf yf lf where p: "p = (out, xf, yf, lf)" by (cases p)
    have ok: "in_c_int px \<and> in_c_int py"
    proof (rule ccontr)
      assume "\<not> (in_c_int px \<and> in_c_int py)"
      from raise [OF this] Inr p show False
        by (simp add: doLayout_def)
    qed
    define it' where "it' = it\<lparr>geometry := QRect_at (QPoint (word_of_int px) (word_of_int py)) (sizeHint it)\<rparr>"
    from ok have pl: "place False it px py = Inr it'"
      by (simp add: place_False it'_def)
    from Inr p obtain out' where "out = placed @ it' # out'"
      unfolding whole step px py pl by (auto split: sum.splits prod.splits)
    with len have "out ! i = it'"
      by (simp add: nth_append)
    with ok Inr p show ?thesis
      by (simp add: doLayout_def it'_def geometry_placed)
  qed
  from raise result show ?thesis
    unfolding Let_def px_def py_def it_def by blast
qed

text \<open>
  Two instances. The third of the items \<open>(50,20), (60,20), (40,20)\<close> in a container of width
  \<open>100\<close> is reached with \<open>(x, y, lineHeight) = (60, 20, 20)\<close> and wraps to \<open>(0, 40)\<close>. The
  third of the items \<open>(2147483647,0), (1,0), (1,5)\<close> is reached with
  \<open>(x, y, lineHeight) = (2147483648, 0, 0)\<close>, stays on the row, and \<open>QPoint\<close> raises.
\<close>

theorem doLayout_placement_rule_witness:
  "doLayout_loop (QRect 0 0 100 0) False 0 0 0
       (take 2 [\<lparr>sizeHint = QSize 50 20, geometry = QRect 0 0 0 0\<rparr>,
                \<lparr>sizeHint = QSize 60 20, geometry = QRect 0 0 0 0\<rparr>,
                \<lparr>sizeHint = QSize 40 20, geometry = QRect 0 0 0 0\<rparr>])
     = Inr ([\<lparr>sizeHint = QSize 50 20, geometry = QRect 0 0 50 20\<rparr>,
             \<lparr>sizeHint = QSize 60 20, geometry = QRect 0 20 60 20\<rparr>], 60, 20, 20)
   \<and> doLayout [\<lparr>sizeHint = QSize 50 20, geometry = QRect 0 0 0 0\<rparr>,
                \<lparr>sizeHint = QSize 60 20, geometry = QRect 0 0 0 0\<rparr>,
                \<lparr>sizeHint = QSize 40 20, geometry = QRect 0 0 0 0\<rparr>] (QRect 0 0 100 0) False
     = Inr ([\<lparr>sizeHint = QSize 50 20, geometry = QRect 0 0 50 20\<rparr>,
             \<lparr>sizeHint = QSize 60 20, geometry = QRect 0 20 60 20\<rparr>,
             \<lparr>sizeHint = QSize 40 20, geometry = QRect 0 40 40 20\<rparr>], 60)
   \<and> rect_x (QRect 0 40 40 20) = 0 \<and> rect_y (QRect 0 40 40 20) = 40
   \<and> doLayout_loop (QRect 0 0 100 0) False 0 0 0
       (take 2 [\<lparr>sizeHint = QSize 2147483647 0, geometry = QRect 0 0 0 0\<rparr>,
                \<lparr>sizeHint = QSize 1 0, geometry = QRect 0 0 0 0\<rparr>,
                \<lparr>sizeHint = QSize 1 5, geometry = QRect 0 0 0 0\<rparr>])
     = Inr ([\<lparr>sizeHint = QSize 2147483647 0, geometry = QRect 0 0 2147483647 0\<rparr>,
             \<lparr>sizeHint = QSize 1 0, geometry = QRect 2147483647 0 1 0\<rparr>], 2147483648, 0, 0)
   \<and> doLayout [\<lparr>sizeHint = QSize 2147483647 0, geometry = QRect 0 0 0 0\<rparr>,
                \<lparr>sizeHint = QSize 1 0, geometry = QRect 0 0 0 0\<rparr>,
                \<lparr>sizeHint = QSize 1 5, geometry = QRect 0 0 0 0\<rparr>] (QRect 0 0 100 0) False
     = Inl (OverflowError,
            [\<lparr>sizeHint = QSize 2147483647 0, geometry = QRect 0 0 2147483647 0\<rparr>,
             \<lparr>sizeHint = QSize 1 0, geometry = QRect 2147483647 0 1 0\<rparr>,
             \<lparr>sizeHint = QSize 1 5, geometry = QRect 0 0 0 0\<rparr>])"
proof -
  let ?r = "QRect 0 0 100 0"
  let ?its = "[\<lparr>sizeHint = QSize 50 20, geometry = QRect 0 0 0 0\<rparr>,
               \<lparr>sizeHint = QSize 60 20, geometry = QRect 0 0 0 0\<rparr>,
               \<lparr>sizeHint = QSize 40 20, geometry = QRect 0 0 0 0\<rparr>]"
  let ?big = "[\<lparr>sizeHint = QSize 2147483647 0, geometry = QRect 0 0 0 0\<rparr>,
               \<lparr>sizeHint = QSize 1 0, geometry = QRect 0 0 0 0\<rparr>,
               \<lparr>sizeHint = QSize 1 5, geometry = QRect 0 0 0 0\<rparr>]"
  let ?placed = "[\<lparr>sizeHint = QSize 50 20, geometry = QRect 0 0 50 20\<rparr>,
                  \<lparr>sizeHint = QSize 60 20, geometry = QRect 0 20 60 20\<rparr>]"
  let ?out = "[\<lparr>sizeHint = QSize 50 20, geometry = QRect 0 0 50 20\<rparr>,
               \<lparr>sizeHint = QSize 60 20, geometry = QRect 0 20 60 20\<rparr>,
               \<lparr>sizeHint = QSize 40 20, geometry = QRect 0 40 40 20\<rparr>]"
  let ?bigplaced = "[\<lparr>sizeHint = QSize 2147483647 0, geometry = QRect 0 0 2147483647 0\<rparr>,
                     \<lparr>sizeHint = QSize 1 0, geometry = QRect 2147483647 0 1 0\<rparr>]"
  have rx: "rect_x ?r = 0" and ry: "rect_y ?r = 0" and rr: "right ?r = 99"
    by (simp_all add: rect_x_def rect_y_def right_def QRect_def)
  have a: "(2::nat) < length ?its" and a': "(2::nat) < length ?big"
    by simp_all
  have b: "doLayout_loop ?r False (rect_x ?r) (rect_y ?r) 0 (take 2 ?its) = Inr (?placed, 60, 20, 20)"
    by code_simp
  have b': "doLayout_loop ?r False (rect_x ?r) (rect_y ?r) 0 (take 2 ?big) = Inr (?bigplaced, 2147483648, 0, 0)"
    by code_simp
  have ev: "doLayout ?its ?r False = Inr (?out, 60)"
    by code_simp
  from doLayout_placement_rule [OF a b]
  have one: "rect_x (QRect 0 40 40 20) = 0 \<and> rect_y (QRect 0 40 40 20) = 40"
    unfolding ev by (simp add: Let_def width_def rx ry rr QRect_at_def QRect_def rect_x_def rect_y_def)
  from doLayout_placement_rule [OF a' b']
  have two: "doLayout ?big ?r False = Inl (OverflowError, ?bigplaced @ drop 2 ?big)"
    by (simp add: Let_def width_def rx ry rr in_c_int_def)
  have d: "?bigplaced @ drop 2 ?big = ?bigplaced @ [\<lparr>sizeHint = QSize 1 5, geometry = QRect 0 0 0 0\<rparr>]"
    by code_simp
  from b b' ev one two show ?thesis
    unfolding rx ry d by simp
qed

text \<open>
  The rule without the \<open>lineHeight\<close> guard fails: after an item of height \<open>0\<close> the
  running \<open>x\<close> is \<open>60\<close> and \<open>lineHeight\<close> is still \<open>0\<close>; the next item, of width
  \<open>60\<close>, passes the right edge of a container of width \<open>100\<close> and is nevertheless placed
  on the current row at \<open>(60, 0)\<close>.
\<close>

theorem doLayout_placement_rule_counterexample:
  "doLayout_loop (QRect 0 0 100 0) False 0 0 0
          [\<lparr>sizeHint = QSize 60 0, geometry = QRect 0 0 0 0\<rparr>]
     = Inr ([\<lparr>sizeHint = QSize 60 0, geometry = QRect 0 0 60 0\<rparr>], 60, 0, 0)
   \<and> \<not> ((60::int) + 60 \<le> 0 + 100)
   \<and> doLayout [\<lparr>sizeHint = QSize 60 0, geometry = QRect 0 0 0 0\<rparr>,
                \<lparr>sizeHint = QSize 60 20, geometry = QRect 0 0 0 0\<rparr>] (QRect 0 0 100 0) False
     = Inr ([\<lparr>sizeHint = QSize 60 0, geometry = QRect 0 0 60 0\<rparr>,
             \<lparr>sizeHint = QSize 60 20, geometry = QRect 60 0 60 20\<rparr>], 20)"
  by code_simp

subsection \<open>The scenario with three items\<close>

text \<open>
  C2. For the items \<open>(50,20), (60,20), (40,20)\<close>, container width \<open>100\<close> and
  origin \<open>(0,0)\<close>, commit mode places item 0 at \<open>(0,0)\<close>, item 1 at \<open>(0,20)\<close> (it wraps,
  \<open>50 + 60 > 99\<close>) and item 2 at \<open>(0,40)\<close> (it wraps as well, \<open>60 + 40 = 100 > 99 = rect.right()\<close>);
  the returned height is \<open>60\<close>.
\<close>

theorem doLayout_scenario_three_items:
  "doLayout [\<lparr>sizeHint = QSize 50 20, geometry = QRect 0 0 0 0\<rparr>,
             \<lparr>sizeHint = QSize 60 20, geometry = QRect 0 0 0 0\<rparr>,
             \<lparr>sizeHint = QSize 40 20, geometry = QRect 0 0 0 0\<rparr>] (QRect 0 0 100 0) False
   = Inr ([\<lparr>sizeHint = QSize 50 20, geometry = QRect 0 0 50 20\<rparr>,
           \<lparr>sizeHint = QSize 60 20, geometry = QRect 0 20 60 20\<rparr>,
           \<lparr>sizeHint = QSize 40 20, geometry = QRect 0 40 40 20\<rparr>], 60)"
  by code_simp

text \<open>The returned height is \<open>60\<close>, not \<open>40\<close>.\<close>

theorem doLayout_scenario_three_items_counterexample:
  "(case doLayout [\<lparr>sizeHint = QSize 50 20, geometry = QRect 0 0 0 0\<rparr>,
                   \<lparr>sizeHint = QSize 60 20, geometry = QRect 0 0 0 0\<rparr>,
                   \<lparr>sizeHint = QSize 40 20, geometry = QRect 0 0 0 0\<rparr>] (QRect 0 0 100 0) False of
      Inl (e, r) \<Rightarrow> None
    | Inr (out, hgt) \<Rightarrow> Some hgt) = Some 60
   \<and> (60::int) \<noteq> 40"
  by code_simp

subsection \<open>A container wide enough for all items\<close>

lemma doLayout_loop_single_row:
  "\<forall>p \<in> set its. 0 \<le> width (sizeHint p) \<Longrightarrow>
   x + sum_list (map (\<lambda>p. width (sizeHint p)) its) \<le> right rect \<Longrightarrow>
   in_c_int x \<Longrightarrow> in_c_int y \<Longrightarrow>
   \<exists>out v. doLayout_loop rect False x y lh its = Inr (out, v)
     \<and> (\<forall>i < length its.
           geometry (out ! i) =
             QRect_at (QPoint (word_of_int (x + sum_list (map (\<lambda>p. width (sizeHint p)) (take i its))))
                              (word_of_int y))
                      (sizeHint (its ! i))
           \<and> in_c_int (x + sum_list (map (\<lambda>p. width (sizeHint p)) (take i its))))"
proof (induction its arbitrary: x lh)
  case Nil
  show ?case by simp
next
  case (Cons it its)
  obtain x1 y1 x' lh' where
    step: "\<And>t. doLayout_loop rect t x y lh (it # its) =
       (case place t it x1 y1 of
          Inl e \<Rightarrow> Inl (e, it # its)
        | Inr it' \<Rightarrow>
            (case doLayout_loop rect t x' y1 lh' its of
               Inl (e, its') \<Rightarrow> Inl (e, it' # its')
             | Inr (its', v) \<Rightarrow> Inr (it' # its', v)))"
    and x1: "x1 = (if x + width (sizeHint it) > right rect \<and> lh \<noteq> 0 then rect_x rect else x)"
    and y1: "y1 = (if x + width (sizeHint it) > right rect \<and> lh \<noteq> 0 then y + lh else y)"
    and x': "x' = x1 + width (sizeHint it)"
    using doLayout_loop_step [of rect x y lh it] by blast
  from Cons.prems(1) have w: "0 \<le> width (sizeHint it)"
    and ws: "\<forall>p \<in> set its. 0 \<le> width (sizeHint p)"
    by simp_all
  from sum_widths_nonneg [OF ws] Cons.prems(2) have fit: "x + width (sizeHint it) \<le> right rect"
    by simp
  then have x1x: "x1 = x" and y1y: "y1 = y" and x'x: "x' = x + width (sizeHint it)"
    unfolding x1 y1 x' by simp_all
  define it' where
    "it' = it\<lparr>geometry := QRect_at (QPoint (word_of_int x) (word_of_int y)) (sizeHint it)\<rparr>"
  from Cons.prems(3,4) have pl: "place False it x y = Inr it'"
    by (simp add: place_False it'_def)
  from Cons.prems(2) have fit': "x' + sum_list (map (\<lambda>p. width (sizeHint p)) its) \<le> right rect"
    unfolding x'x by simp
  from Cons.prems(3) w fit right_in_c_int [of rect] have inx': "in_c_int x'"
    unfolding x'x in_c_int_def by simp
  from Cons.IH [OF ws fit' inx' Cons.prems(4), of lh'] obtain out v where
    r: "doLayout_loop rect False x' y lh' its = Inr (out, v)"
    and g: "\<forall>i < length its.
           geometry (out ! i) =
             QRect_at (QPoint (word_of_int (x' + sum_list (map (\<lambda>p. width (sizeHint p)) (take i its))))
                              (word_of_int y))
                      (sizeHint (its ! i))
           \<and> in_c_int (x' + sum_list (map (\<lambda>p. width (sizeHint p)) (take i its)))"
    by blast
  have whole: "doLayout_loop rect False x y lh (it # its) = Inr (it' # out, v)"
    by (simp add: step x1x y1y pl r)
  have "geometry ((it' # out) ! i) =
             QRect_at (QPoint (word_of_int (x + sum_list (map (\<lambda>p. width (sizeHint p)) (take i (it # its)))))
                              (word_of_int y))
                      (sizeHint ((it # its) ! i))
           \<and> in_c_int (x + sum_list (map (\<lambda>p. width (sizeHint p)) (take i (it # its))))"
    if "i < length (it # its)" for i
  proof (cases i)
    case 0
    with Cons.prems(3) show ?thesis by (simp add: it'_def)
  next
    case (Suc j)
    with that have "j < length its" by simp
    with g Suc show ?thesis
      by (simp add: x'x add.assoc)
  qed
  with whole show ?case by blast
qed

lemma sum_take_mono:
  assumes "\<forall>p \<in> set its. 0 \<le> width (sizeHint p)" and "i \<le> j"
  shows "sum_list (map (\<lambda>p. width (sizeHint p)) (take i its)) \<le> sum_list (map (\<lambda>p. width (sizeHint p)) (take j its))"
proof -
  have "take j its = take i its @ drop i (take j its)"
    using assms(2) by (metis append_take_drop_id min.absorb2 min.commute take_take)
  then have "sum_list (map (\<lambda>p. width (sizeHint p)) (take j its)) =
      sum_list (map (\<lambda>p. width (sizeHint p)) (take i its)) + sum_list (map (\<lambda>p. width (sizeHint p)) (drop i (take j its)))"
    by (metis map_append sum_list.append)
  moreover have "\<forall>p \<in> set (drop i (take j its)). 0 \<le> width (sizeHint p)"
    using assms(1) by (meson in_set_dropD in_set_takeD)
  from sum_widths_nonneg [OF this]
  have "0 \<le> sum_list (map (\<lambda>p. width (sizeHint p)) (drop i (take j its)))" .
  ultimately show ?thesis by simp
qed

text \<open>
  C3. When no width is negative and all items together fit
  (\<open>rect.x()\<close> plus the sum of all widths is at most \<open>rect.right()\<close>), commit mode returns
  and has placed all items on a single row: as many items come back as went in, in input
  order (same size hints), item \<open>i\<close> at \<open>x = rect.x()\<close> plus the widths of the items before
  it and at \<open>y = rect.y()\<close>, with its size hint as size, so that the \<open>x\<close>-offsets are
  non-decreasing.
\<close>

theorem doLayout_single_row:
  assumes "\<forall>it \<in> set itemList. 0 \<le> width (sizeHint it)"
    and "rect_x rect + sum_list (map (\<lambda>p. width (sizeHint p)) itemList) \<le> right rect"
  shows "\<exists>out hgt. doLayout itemList rect False = Inr (out, hgt)
       \<and> length out = length itemList
       \<and> map sizeHint out = map sizeHint itemList
       \<and> (\<forall>i < length itemList.
             rect_x (geometry (out ! i)) =
               rect_x rect + sum_list (map (\<lambda>p. width (sizeHint p)) (take i itemList))
             \<and> rect_y (geometry (out ! i)) = rect_y rect
             \<and> geometry (out ! i) =
                 QRect_at (QPoint (left_c (geometry (out ! i))) (top_c (geometry (out ! i))))
                          (sizeHint (itemList ! i)))
       \<and> (\<forall>i j. i \<le> j \<and> j < length itemList \<longrightarrow>
             rect_x (geometry (out ! i)) \<le> rect_x (geometry (out ! j)))"
proof -
  from doLayout_loop_single_row [OF assms rect_x_in_c_int rect_y_in_c_int, where lh = 0]
  obtain out v where
    r: "doLayout_loop rect False (rect_x rect) (rect_y rect) 0 itemList = Inr (out, v)"
    and g: "\<And>i. i < length itemList \<Longrightarrow>
           geometry (out ! i) =
             QRect_at (QPoint (word_of_int (rect_x rect + sum_list (map (\<lambda>p. width (sizeHint p)) (take i itemList))))
                              (word_of_int (rect_y rect)))
                      (sizeHint (itemList ! i))
           \<and> in_c_int (rect_x rect + sum_list (map (\<lambda>p. width (sizeHint p)) (take i itemList)))"
    by blast
  obtain xf yf lf where v: "v = (xf, yf, lf)" by (cases v)
  have d: "doLayout itemList rect False = Inr (out, yf + lf - rect_y rect)"
    by (simp add: doLayout_def r v)
  note io = doLayout_loop_Inr [OF r]
  have pos: "rect_x (geometry (out ! i)) =
               rect_x rect + sum_list (map (\<lambda>p. width (sizeHint p)) (take i itemList))
             \<and> rect_y (geometry (out ! i)) = rect_y rect
             \<and> geometry (out ! i) =
                 QRect_at (QPoint (left_c (geometry (out ! i))) (top_c (geometry (out ! i))))
                          (sizeHint (itemList ! i))"
    if "i < length itemList" for i
    using g [OF that] geometry_placed [OF _ rect_y_in_c_int, where
        px = "rect_x rect + sum_list (map (\<lambda>p. width (sizeHint p)) (take i itemList))"
        and s = "sizeHint (itemList ! i)" and rect1 = rect]
    by (simp add: QRect_at_def)
  have mono: "rect_x (geometry (out ! i)) \<le> rect_x (geometry (out ! j))"
    if "i \<le> j \<and> j < length itemList" for i j
  proof -
    from that have "i < length itemList" and "j < length itemList" by simp_all
    from pos [OF this(1)] pos [OF this(2)] sum_take_mono [OF assms(1), of i j] that
    show ?thesis by simp
  qed
  from d io pos mono show ?thesis by blast
qed

theorem doLayout_single_row_witness:
  "(0::int) \<le> 30 \<and> (0::int) \<le> 40
   \<and> 5 + (30 + 40) \<le> right (QRect 5 7 100 0)
   \<and> doLayout [\<lparr>sizeHint = QSize 30 20, geometry = QRect 0 0 0 0\<rparr>,
                \<lparr>sizeHint = QSize 40 10, geometry = QRect 0 0 0 0\<rparr>] (QRect 5 7 100 0) False
       = Inr ([\<lparr>sizeHint = QSize 30 20, geometry = QRect 5 7 30 20\<rparr>,
               \<lparr>sizeHint = QSize 40 10, geometry = QRect 35 7 40 10\<rparr>], 20)
   \<and> rect_x (QRect 35 7 40 10) = 5 + 30
   \<and> rect_y (QRect 35 7 40 10) = 7"
proof -
  let ?r = "QRect 5 7 100 0"
  let ?its = "[\<lparr>sizeHint = QSize 30 20, geometry = QRect 0 0 0 0\<rparr>,
               \<lparr>sizeHint = QSize 40 10, geometry = QRect 0 0 0 0\<rparr>]"
  let ?out = "[\<lparr>sizeHint = QSize 30 20, geometry = QRect 5 7 30 20\<rparr>,
               \<lparr>sizeHint = QSize 40 10, geometry = QRect 35 7 40 10\<rparr>]"
  have rx: "rect_x ?r = 5" and ry: "rect_y ?r = 7" and rr: "right ?r = 104"
    by (simp_all add: rect_x_def rect_y_def right_def QRect_def)
  have a: "\<forall>it \<in> set ?its. 0 \<le> width (sizeHint it)"
    by (simp add: width_def)
  have b: "rect_x ?r + sum_list (map (\<lambda>p. width (sizeHint p)) ?its) \<le> right ?r"
    by (simp add: rx rr width_def)
  have ev: "doLayout ?its ?r False = Inr (?out, 20)"
    by code_simp
  from doLayout_single_row [OF a b] obtain out hgt where
    d: "doLayout ?its ?r False = Inr (out, hgt)"
    and pos: "\<forall>i < length ?its.
             rect_x (geometry (out ! i)) =
               rect_x ?r + sum_list (map (\<lambda>p. width (sizeHint p)) (take i ?its))
             \<and> rect_y (geometry (out ! i)) = rect_y ?r
             \<and> geometry (out ! i) =
                 QRect_at (QPoint (left_c (geometry (out ! i))) (top_c (geometry (out ! i))))
                          (sizeHint (?its ! i))"
    by blast
  from d ev have o: "out = ?out" by simp
  from pos have "rect_x (geometry (out ! 1)) =
               rect_x ?r + sum_list (map (\<lambda>p. width (sizeHint p)) (take 1 ?its))
             \<and> rect_y (geometry (out ! 1)) = rect_y ?r"
    by simp
  then have p: "rect_x (QRect 35 7 40 10) = 5 + 30 \<and> rect_y (QRect 35 7 40 10) = 7"
    unfolding o rx ry by (simp add: width_def)
  from ev p show ?thesis by (simp add: rr)
qed

text \<open>
  A container as wide as the widest item is not enough: widths \<open>50\<close> and \<open>60\<close> in a
  container of width \<open>100\<close> end on two rows.
\<close>

theorem doLayout_single_row_counterexample:
  "max (50::int) 60 \<le> 100
   \<and> doLayout [\<lparr>sizeHint = QSize 50 20, geometry = QRect 0 0 0 0\<rparr>,
                \<lparr>sizeHint = QSize 60 20, geometry = QRect 0 0 0 0\<rparr>] (QRect 0 0 100 0) False
       = Inr ([\<lparr>sizeHint = QSize 50 20, geometry = QRect 0 0 50 20\<rparr>,
               \<lparr>sizeHint = QSize 60 20, geometry = QRect 0 20 60 20\<rparr>], 40)
   \<and> rect_y (QRect 0 0 50 20) = 0 \<and> rect_y (QRect 0 20 60 20) = 20"
  by code_simp

subsection \<open>Measure mode versus commit mode\<close>

text \<open>
  C4. Measure mode (\<open>testOnly = True\<close>) always returns a height. The commit-mode loop
  (\<open>testOnly = False\<close>) on the same items and rectangle either reaches its end, and then
  that height is the value \<open>y + lineHeight - rect.y()\<close> of its final variables, which commit
  mode returns; or it raises \<open>OverflowError\<close>. It reaches its end whenever no size is
  negative and \<open>rect.x()\<close> plus all widths and \<open>rect.y()\<close> plus all heights stay within
  \<open>2147483647\<close>.
\<close>

theorem doLayout_height_testOnly_independent:
  "\<exists>h. doLayout itemList rect True = Inr (itemList, h)
     \<and> (case doLayout_loop rect False (rect_x rect) (rect_y rect) 0 itemList of
           Inl (e, r) \<Rightarrow> e = OverflowError \<and> doLayout itemList rect False = Inl (e, r)
         | Inr (out, x, y, lineHeight) \<Rightarrow>
             h = y + lineHeight - rect_y rect \<and> doLayout itemList rect False = Inr (out, h))
     \<and> ((\<forall>it \<in> set itemList. 0 \<le> width (sizeHint it) \<and> 0 \<le> height (sizeHint it))
          \<and> rect_x rect + sum_list (map (\<lambda>p. width (sizeHint p)) itemList) \<le> 2147483647
          \<and> rect_y rect + sum_list (map (\<lambda>p. height (sizeHint p)) itemList) \<le> 2147483647
         \<longrightarrow> (\<exists>out. doLayout itemList rect False = Inr (out, h)))"
proof -
  obtain v where m: "doLayout_loop rect True (rect_x rect) (rect_y rect) 0 itemList = Inr (itemList, v)"
    using doLayout_loop_measure by blast
  obtain xf yf lf where v: "v = (xf, yf, lf)" by (cases v)
  define h where "h = yf + lf - rect_y rect"
  have measure: "doLayout itemList rect True = Inr (itemList, h)"
    by (simp add: doLayout_def m v h_def)
  have returned: "v' = v \<and> doLayout itemList rect False = Inr (out, h)"
    if "doLayout_loop rect False (rect_x rect) (rect_y rect) 0 itemList = Inr (out, v')" for out v'
  proof -
    from doLayout_loop_commit_measure [OF that] m have "v' = v" by simp
    with that show ?thesis by (simp add: doLayout_def v h_def)
  qed
  have commit: "case doLayout_loop rect False (rect_x rect) (rect_y rect) 0 itemList of
                  Inl (e, r) \<Rightarrow> e = OverflowError \<and> doLayout itemList rect False = Inl (e, r)
                | Inr (out, x, y, lineHeight) \<Rightarrow>
                    h = y + lineHeight - rect_y rect \<and> doLayout itemList rect False = Inr (out, h)"
  proof (cases "doLayout_loop rect False (rect_x rect) (rect_y rect) 0 itemList")
    case (Inl p)
    obtain e r where p: "p = (e, r)" by (cases p)
    from doLayout_loop_Inl [OF Inl [unfolded p]] Inl p show ?thesis
      by (simp add: doLayout_def)
  next
    case (Inr p)
    obtain out v' where p: "p = (out, v')" by (cases p)
    from returned [OF Inr [unfolded p]] Inr p show ?thesis
      by (simp add: v h_def)
  qed
  have fits: "\<exists>out. doLayout itemList rect False = Inr (out, h)"
    if "(\<forall>it \<in> set itemList. 0 \<le> width (sizeHint it) \<and> 0 \<le> height (sizeHint it))
          \<and> rect_x rect + sum_list (map (\<lambda>p. width (sizeHint p)) itemList) \<le> 2147483647
          \<and> rect_y rect + sum_list (map (\<lambda>p. height (sizeHint p)) itemList) \<le> 2147483647"
  proof -
    from that have
      "\<exists>out v. doLayout_loop rect False (rect_x rect) (rect_y rect) 0 itemList = Inr (out, v)"
      by (intro doLayout_loop_commit_returns) simp_all
    with returned show ?thesis by blast
  qed
  from measure commit fits show ?thesis by blast
qed

theorem doLayout_height_testOnly_independent_witness:
  "doLayout [\<lparr>sizeHint = QSize 50 20, geometry = QRect 0 0 0 0\<rparr>,
             \<lparr>sizeHint = QSize 60 20, geometry = QRect 0 0 0 0\<rparr>,
             \<lparr>sizeHint = QSize 40 20, geometry = QRect 0 0 0 0\<rparr>] (QRect 0 0 100 0) True
     = Inr ([\<lparr>sizeHint = QSize 50 20, geometry = QRect 0 0 0 0\<rparr>,
             \<lparr>sizeHint = QSize 60 20, geometry = QRect 0 0 0 0\<rparr>,
             \<lparr>sizeHint = QSize 40 20, geometry = QRect 0 0 0 0\<rparr>], 60)
   \<and> (\<exists>out. doLayout [\<lparr>sizeHint = QSize 50 20, geometry = QRect 0 0 0 0\<rparr>,
                        \<lparr>sizeHint = QSize 60 20, geometry = QRect 0 0 0 0\<rparr>,
                        \<lparr>sizeHint = QSize 40 20, geometry = QRect 0 0 0 0\<rparr>] (QRect 0 0 100 0) False
               = Inr (out, 60))"
proof -
  let ?r = "QRect 0 0 100 0"
  let ?its = "[\<lparr>sizeHint = QSize 50 20, geometry = QRect 0 0 0 0\<rparr>,
               \<lparr>sizeHint = QSize 60 20, geometry = QRect 0 0 0 0\<rparr>,
               \<lparr>sizeHint = QSize 40 20, geometry = QRect 0 0 0 0\<rparr>]"
  have ev: "doLayout ?its ?r True = Inr (?its, 60)"
    by code_simp
  have fits: "(\<forall>it \<in> set ?its. 0 \<le> width (sizeHint it) \<and> 0 \<le> height (sizeHint it))
          \<and> rect_x ?r + sum_list (map (\<lambda>p. width (sizeHint p)) ?its) \<le> 2147483647
          \<and> rect_y ?r + sum_list (map (\<lambda>p. height (sizeHint p)) ?its) \<le> 2147483647"
    by (simp add: width_def height_def rect_x_def rect_y_def QRect_def)
  from doLayout_height_testOnly_independent [of ?its ?r] obtain h where
    m: "doLayout ?its ?r True = Inr (?its, h)"
    and f: "(\<forall>it \<in> set ?its. 0 \<le> width (sizeHint it) \<and> 0 \<le> height (sizeHint it))
          \<and> rect_x ?r + sum_list (map (\<lambda>p. width (sizeHint p)) ?its) \<le> 2147483647
          \<and> rect_y ?r + sum_list (map (\<lambda>p. height (sizeHint p)) ?its) \<le> 2147483647
         \<longrightarrow> (\<exists>out. doLayout ?its ?r False = Inr (out, h))"
    by blast
  from m ev have "h = 60" by simp
  with f fits have "\<exists>out. doLayout ?its ?r False = Inr (out, 60)" by blast
  with ev show ?thesis by blast
qed

text \<open>
  The two modes differ where a position leaves the C \<open>int\<close> range: for the sizes
  \<open>(2147483647,0), (1,0), (1,5)\<close> measure mode returns \<open>5\<close> and commit mode raises at the
  third item, whose \<open>x\<close> is \<open>2147483648\<close>.
\<close>

theorem doLayout_height_testOnly_independent_counterexample:
  "doLayout [\<lparr>sizeHint = QSize 2147483647 0, geometry = QRect 0 0 0 0\<rparr>,
             \<lparr>sizeHint = QSize 1 0, geometry = QRect 0 0 0 0\<rparr>,
             \<lparr>sizeHint = QSize 1 5, geometry = QRect 0 0 0 0\<rparr>] (QRect 0 0 100 0) True
     = Inr ([\<lparr>sizeHint = QSize 2147483647 0, geometry = QRect 0 0 0 0\<rparr>,
             \<lparr>sizeHint = QSize 1 0, geometry = QRect 0 0 0 0\<rparr>,
             \<lparr>sizeHint = QSize 1 5, geometry = QRect 0 0 0 0\<rparr>], 5)
   \<and> doLayout [\<lparr>sizeHint = QSize 2147483647 0, geometry = QRect 0 0 0 0\<rparr>,
                \<lparr>sizeHint = QSize 1 0, geometry = QRect 0 0 0 0\<rparr>,
                \<lparr>sizeHint = QSize 1 5, geometry = QRect 0 0 0 0\<rparr>] (QRect 0 0 100 0) False
     = Inl (OverflowError,
            [\<lparr>sizeHint = QSize 2147483647 0, geometry = QRect 0 0 2147483647 0\<rparr>,
             \<lparr>sizeHint = QSize 1 0, geometry = QRect 2147483647 0 1 0\<rparr>,
             \<lparr>sizeHint = QSize 1 5, geometry = QRect 0 0 0 0\<rparr>])"
  by code_simp

text \<open>
  C7. In measure mode (\<open>testOnly = True\<close>) no \<open>setGeometry\<close> happens and nothing is
  raised: the item list comes back exactly as it went in, every item with the geometry it
  had.
\<close>

theorem doLayout_testOnly_no_effect:
  "\<exists>h. doLayout itemList rect True = Inr (itemList, h)"
proof -
  obtain v where "doLayout_loop rect True (rect_x rect) (rect_y rect) 0 itemList = Inr (itemList, v)"
    using doLayout_loop_measure by blast
  then show ?thesis
    by (cases v) (simp add: doLayout_def)
qed

subsection \<open>A single item wider than the container\<close>

text \<open>
  C5. A single item wider than the container is placed, in commit mode, at the origin of the
  rectangle with its full size hint as size (neither split nor shrunk), nothing is raised,
  and the returned height is the item's height (heights being non-negative).
\<close>

theorem doLayout_single_wide_item:
  assumes "rect_width rect < width (sizeHint it)" and "0 \<le> height (sizeHint it)"
  shows "doLayout [it] rect False =
           Inr ([it\<lparr>geometry := QRect (left_c rect) (top_c rect)
                                       (size_w (sizeHint it)) (size_h (sizeHint it))\<rparr>],
                height (sizeHint it))"
  using assms rect_x_in_c_int [of rect] rect_y_in_c_int [of rect]
  by (simp add: doLayout_def doLayout_loop.simps(2) Let_def place_False QRect_at_def QRect_def
      rect_x_def rect_y_def)

theorem doLayout_single_wide_item_witness:
  "rect_width (QRect 0 0 100 0) < width (sizeHint \<lparr>sizeHint = QSize 200 30, geometry = QRect 0 0 0 0\<rparr>)
   \<and> 0 \<le> height (sizeHint \<lparr>sizeHint = QSize 200 30, geometry = QRect 0 0 0 0\<rparr>)
   \<and> doLayout [\<lparr>sizeHint = QSize 200 30, geometry = QRect 0 0 0 0\<rparr>] (QRect 0 0 100 0) False
       = Inr ([\<lparr>sizeHint = QSize 200 30, geometry = QRect 0 0 200 30\<rparr>], 30)"
proof -
  let ?it = "\<lparr>sizeHint = QSize 200 30, geometry = QRect 0 0 0 0\<rparr>"
  have a: "rect_width (QRect 0 0 100 0) < width (sizeHint ?it)"
    by (simp add: rect_width_def width_def QRect_def)
  have b: "0 \<le> height (sizeHint ?it)"
    by (simp add: height_def)
  from doLayout_single_wide_item [OF a b] a b show ?thesis
    by (simp add: height_def QRect_def)
qed

subsection \<open>The wrap guard and the current row\<close>

lemma doLayout_rows_Cons:
  "doLayout_rows rect x y lh n (it # its) =
     (if x + width (sizeHint it) > right rect \<and> lh \<noteq> 0
      then doLayout_rows rect (rect_x rect + width (sizeHint it)) (y + lh) (max 0 (height (sizeHint it))) (Suc 0) its
      else doLayout_rows rect (x + width (sizeHint it)) y (max lh (height (sizeHint it))) (Suc n) its)"
  by (simp add: Let_def)

lemma doLayout_rows_erasure:
  "doLayout_loop rect True x y lh its = Inr (its, fst (doLayout_rows rect x y lh n its))"
proof (induction its arbitrary: x y lh n)
  case Nil
  show ?case by simp
next
  case (Cons it its)
  obtain x1 y1 x' lh' where
    step: "\<And>t. doLayout_loop rect t x y lh (it # its) =
       (case place t it x1 y1 of
          Inl e \<Rightarrow> Inl (e, it # its)
        | Inr it' \<Rightarrow>
            (case doLayout_loop rect t x' y1 lh' its of
               Inl (e, its') \<Rightarrow> Inl (e, it' # its')
             | Inr (its', v) \<Rightarrow> Inr (it' # its', v)))"
    and x1: "x1 = (if x + width (sizeHint it) > right rect \<and> lh \<noteq> 0 then rect_x rect else x)"
    and y1: "y1 = (if x + width (sizeHint it) > right rect \<and> lh \<noteq> 0 then y + lh else y)"
    and x': "x' = x1 + width (sizeHint it)"
    and lh': "lh' = max (if x + width (sizeHint it) > right rect \<and> lh \<noteq> 0 then 0 else lh)
                 (height (sizeHint it))"
    using doLayout_loop_step [of rect x y lh it] by blast
  show ?case
  proof (cases "x + width (sizeHint it) > right rect \<and> lh \<noteq> 0")
    case True
    then have "doLayout_rows rect x y lh n (it # its) = doLayout_rows rect x' y1 lh' (Suc 0) its"
      unfolding x' x1 y1 lh' by (simp add: doLayout_rows_Cons del: doLayout_rows.simps(2))
    with Cons [of x' y1 lh' "Suc 0"] show ?thesis
      by (simp add: step place_True del: doLayout_rows.simps(2))
  next
    case False
    then have "doLayout_rows rect x y lh n (it # its) = doLayout_rows rect x' y1 lh' (Suc n) its"
      unfolding x' x1 y1 lh' by (auto simp add: doLayout_rows_Cons simp del: doLayout_rows.simps(2))
    with Cons [of x' y1 lh' "Suc n"] show ?thesis
      by (simp add: step place_True del: doLayout_rows.simps(2))
  qed
qed

lemma doLayout_rows_guard_implies_nonempty:
  "0 \<le> lh \<Longrightarrow> (0 < lh \<longrightarrow> 0 < n) \<Longrightarrow>
   doLayout_rows rect x y lh n its = ((x', y', lh'), n') \<Longrightarrow>
   0 \<le> lh' \<and> (0 < lh' \<longrightarrow> 0 < n')"
proof (induction its arbitrary: x y lh n)
  case Nil
  then show ?case by simp
next
  case (Cons it its)
  show ?case
  proof (cases "x + width (sizeHint it) > right rect \<and> lh \<noteq> 0")
    case True
    with Cons.prems(3)
    have r: "doLayout_rows rect (rect_x rect + width (sizeHint it)) (y + lh) (max 0 (height (sizeHint it))) (Suc 0) its
               = ((x', y', lh'), n')"
      by (simp add: doLayout_rows_Cons del: doLayout_rows.simps(2))
    show ?thesis by (rule Cons.IH [OF _ _ r]) simp_all
  next
    case False
    with Cons.prems(3)
    have r: "doLayout_rows rect (x + width (sizeHint it)) y (max lh (height (sizeHint it))) (Suc n) its
               = ((x', y', lh'), n')"
      by (simp add: doLayout_rows_Cons del: doLayout_rows.simps(2))
    from Cons.prems(1) have "0 \<le> max lh (height (sizeHint it))" by simp
    then show ?thesis by (rule Cons.IH [OF _ _ r]) simp
  qed
qed

lemma doLayout_rows_guard_iff_nonempty:
  "\<forall>p \<in> set its. 0 < height (sizeHint p) \<Longrightarrow>
   0 \<le> lh \<Longrightarrow> (0 < lh \<longleftrightarrow> 0 < n) \<Longrightarrow>
   doLayout_rows rect x y lh n its = ((x', y', lh'), n') \<Longrightarrow>
   (0 < lh' \<longleftrightarrow> 0 < n')"
proof (induction its arbitrary: x y lh n)
  case Nil
  then show ?case by simp
next
  case (Cons it its)
  from Cons.prems(1) have h: "0 < height (sizeHint it)" and hs: "\<forall>p \<in> set its. 0 < height (sizeHint p)"
    by simp_all
  show ?case
  proof (cases "x + width (sizeHint it) > right rect \<and> lh \<noteq> 0")
    case True
    with Cons.prems(4)
    have r: "doLayout_rows rect (rect_x rect + width (sizeHint it)) (y + lh) (max 0 (height (sizeHint it))) (Suc 0) its
               = ((x', y', lh'), n')"
      by (simp add: doLayout_rows_Cons del: doLayout_rows.simps(2))
    from h show ?thesis by (intro Cons.IH [OF hs _ _ r]) simp_all
  next
    case False
    with Cons.prems(4)
    have r: "doLayout_rows rect (x + width (sizeHint it)) y (max lh (height (sizeHint it))) (Suc n) its
               = ((x', y', lh'), n')"
      by (simp add: doLayout_rows_Cons del: doLayout_rows.simps(2))
    from h Cons.prems(2) show ?thesis by (intro Cons.IH [OF hs _ _ r]) simp_all
  qed
qed

text \<open>
  C6. Let \<open>(x, y, lineHeight)\<close> be the loop variables at the start of iteration
  \<open>i\<close> and \<open>onRow\<close> the number of items placed on the current row so far (these are the
  variables of \<open>_doLayout\<close> itself: those of measure mode, and those of commit mode whenever
  it gets that far). If \<open>lineHeight > 0\<close> then at least one item is on the current row; and
  when every item has a strictly positive height, \<open>lineHeight > 0\<close> holds if and only if
  at least one item is on the current row.
\<close>

theorem lineHeight_guard_row_nonempty:
  assumes "i < length itemList"
    and "doLayout_rows rect (rect_x rect) (rect_y rect) 0 0 (take i itemList) = ((x, y, lineHeight), onRow)"
  shows "doLayout_loop rect True (rect_x rect) (rect_y rect) 0 (take i itemList)
           = Inr (take i itemList, x, y, lineHeight)
       \<and> (case doLayout_loop rect False (rect_x rect) (rect_y rect) 0 (take i itemList) of
             Inl (e, r) \<Rightarrow> e = OverflowError
           | Inr (out, v) \<Rightarrow> v = (x, y, lineHeight))
       \<and> (0 < lineHeight \<longrightarrow> 0 < onRow)
       \<and> ((\<forall>it \<in> set itemList. 0 < height (sizeHint it)) \<longrightarrow> (0 < lineHeight \<longleftrightarrow> 0 < onRow))"
proof (intro conjI impI)
  from assms(2) doLayout_rows_erasure [of rect "rect_x rect" "rect_y rect" 0 "take i itemList" 0]
  show m: "doLayout_loop rect True (rect_x rect) (rect_y rect) 0 (take i itemList)
             = Inr (take i itemList, x, y, lineHeight)"
    by simp
  show "case doLayout_loop rect False (rect_x rect) (rect_y rect) 0 (take i itemList) of
             Inl (e, r) \<Rightarrow> e = OverflowError
           | Inr (out, v) \<Rightarrow> v = (x, y, lineHeight)"
  proof (cases "doLayout_loop rect False (rect_x rect) (rect_y rect) 0 (take i itemList)")
    case (Inl p)
    obtain e r where p: "p = (e, r)" by (cases p)
    from doLayout_loop_Inl [OF Inl [unfolded p]] Inl p show ?thesis by simp
  next
    case (Inr p)
    obtain out v where p: "p = (out, v)" by (cases p)
    from doLayout_loop_commit_measure [OF Inr [unfolded p]] m Inr p show ?thesis by simp
  qed
next
  assume "0 < lineHeight"
  with doLayout_rows_guard_implies_nonempty [OF _ _ assms(2)] show "0 < onRow" by simp
next
  assume "\<forall>it \<in> set itemList. 0 < height (sizeHint it)"
  then have "\<forall>p \<in> set (take i itemList). 0 < height (sizeHint p)"
    by (meson in_set_takeD)
  from doLayout_rows_guard_iff_nonempty [OF this _ _ assms(2)]
  show "0 < lineHeight \<longleftrightarrow> 0 < onRow" by simp
qed

theorem lineHeight_guard_row_nonempty_witness:
  "(2::nat) < length [\<lparr>sizeHint = QSize 50 20, geometry = QRect 0 0 0 0\<rparr>,
                      \<lparr>sizeHint = QSize 60 20, geometry = QRect 0 0 0 0\<rparr>,
                      \<lparr>sizeHint = QSize 40 20, geometry = QRect 0 0 0 0\<rparr>]
   \<and> doLayout_rows (QRect 0 0 100 0) 0 0 0 0
        (take 2 [\<lparr>sizeHint = QSize 50 20, geometry = QRect 0 0 0 0\<rparr>,
                 \<lparr>sizeHint = QSize 60 20, geometry = QRect 0 0 0 0\<rparr>,
                 \<lparr>sizeHint = QSize 40 20, geometry = QRect 0 0 0 0\<rparr>]) = ((60, 20, 20), 1)
   \<and> doLayout_loop (QRect 0 0 100 0) True 0 0 0
        (take 2 [\<lparr>sizeHint = QSize 50 20, geometry = QRect 0 0 0 0\<rparr>,
                 \<lparr>sizeHint = QSize 60 20, geometry = QRect 0 0 0 0\<rparr>,
                 \<lparr>sizeHint = QSize 40 20, geometry = QRect 0 0 0 0\<rparr>])
       = Inr (take 2 [\<lparr>sizeHint = QSize 50 20, geometry = QRect 0 0 0 0\<rparr>,
                      \<lparr>sizeHint = QSize 60 20, geometry = QRect 0 0 0 0\<rparr>,
                      \<lparr>sizeHint = QSize 40 20, geometry = QRect 0 0 0 0\<rparr>], 60, 20, 20)
   \<and> ((0::int) < 20 \<longleftrightarrow> (0::nat) < 1)"
proof -
  let ?its = "[\<lparr>sizeHint = QSize 50 20, geometry = QRect 0 0 0 0\<rparr>,
               \<lparr>sizeHint = QSize 60 20, geometry = QRect 0 0 0 0\<rparr>,
               \<lparr>sizeHint = QSize 40 20, geometry = QRect 0 0 0 0\<rparr>]"
  let ?r = "QRect 0 0 100 0"
  have rx: "rect_x ?r = 0" and ry: "rect_y ?r = 0"
    by (simp_all add: rect_x_def rect_y_def QRect_def)
  have a: "(2::nat) < length ?its" by simp
  have c: "doLayout_rows ?r 0 0 0 0 (take 2 ?its) = ((60, 20, 20), 1)"
    by code_simp
  then have b: "doLayout_rows ?r (rect_x ?r) (rect_y ?r) 0 0 (take 2 ?its) = ((60, 20, 20), 1)"
    unfolding rx ry .
  have p: "\<forall>it \<in> set ?its. 0 < height (sizeHint it)"
    by (simp add: height_def)
  note t = lineHeight_guard_row_nonempty [OF a b]
  from t have m: "doLayout_loop ?r True 0 0 0 (take 2 ?its) = Inr (take 2 ?its, 60, 20, 20)"
    unfolding rx ry by (rule conjunct1)
  from t have "(\<forall>it \<in> set ?its. 0 < height (sizeHint it)) \<longrightarrow> ((0::int) < 20 \<longleftrightarrow> (0::nat) < 1)"
    by (rule conjunct2 [THEN conjunct2, THEN conjunct2])
  from this p have "(0::int) < 20 \<longleftrightarrow> (0::nat) < 1"
    by (rule mp)
  with m a c show ?thesis by simp
qed

text \<open>
  With a height of \<open>0\<close> the equivalence fails: after an item of size \<open>(60, 0)\<close> there is
  one item on the current row and \<open>lineHeight\<close> is \<open>0\<close>.
\<close>

theorem lineHeight_guard_row_nonempty_counterexample:
  "\<not> (0 < snd (snd (fst (doLayout_rows (QRect 0 0 100 0) 0 0 0 0
                  (take 1 [\<lparr>sizeHint = QSize 60 0, geometry = QRect 0 0 0 0\<rparr>,
                           \<lparr>sizeHint = QSize 60 20, geometry = QRect 0 0 0 0\<rparr>]))))
        \<longleftrightarrow> 0 < snd (doLayout_rows (QRect 0 0 100 0) 0 0 0 0
                  (take 1 [\<lparr>sizeHint = QSize 60 0, geometry = QRect 0 0 0 0\<rparr>,
                           \<lparr>sizeHint = QSize 60 20, geometry = QRect 0 0 0 0\<rparr>])))"
  by code_simp

section \<open>Properties of the item list\<close>

lemma pop_at_take_drop:
  "n < length xs \<Longrightarrow> pop_at xs n = Some (xs ! n, take n xs @ drop (Suc n) xs)"
proof (induction xs arbitrary: n)
  case Nil
  then show ?case by simp
next
  case (Cons x xs)
  then show ?case by (cases n) simp_all
qed

text \<open>
  C10. For an index outside \<open>[0, count())\<close>, \<open>itemAt\<close> and \<open>takeAt\<close> return \<open>None\<close> and
  raise nothing, and \<open>takeAt\<close> leaves the item list as it was. For an index inside the
  range \<open>itemAt\<close> returns the item at that index, and \<open>takeAt\<close> returns it and removes it
  from the list (the items before and after keep their order).
\<close>

theorem itemAt_takeAt_guarded:
  "(i < 0 \<or> count itemList \<le> i \<longrightarrow>
      itemAt itemList i = Inr None \<and> takeAt itemList i = Inr (None, itemList))
   \<and> (0 \<le> i \<and> i < count itemList \<longrightarrow>
      itemAt itemList i = Inr (Some (itemList ! nat i))
      \<and> takeAt itemList i =
          Inr (Some (itemList ! nat i), take (nat i) itemList @ drop (Suc (nat i)) itemList))"
proof (intro conjI impI)
  assume "i < 0 \<or> count itemList \<le> i"
  then show "itemAt itemList i = Inr None" and "takeAt itemList i = Inr (None, itemList)"
    by (auto simp add: itemAt_def takeAt_def count_def)
next
  assume r: "0 \<le> i \<and> i < count itemList"
  then have n: "nat i < length itemList" by (simp add: count_def nat_less_iff)
  from r show "itemAt itemList i = Inr (Some (itemList ! nat i))"
    by (simp add: itemAt_def getitem_def count_def)
  from r pop_at_take_drop [OF n]
  show "takeAt itemList i =
          Inr (Some (itemList ! nat i), take (nat i) itemList @ drop (Suc (nat i)) itemList)"
    by (simp add: takeAt_def pop_def count_def)
qed

theorem itemAt_takeAt_guarded_witness:
  "itemAt [QSize 1 1, QSize 2 2, QSize 3 3] 3 = Inr None
   \<and> takeAt [QSize 1 1, QSize 2 2, QSize 3 3] 3 = Inr (None, [QSize 1 1, QSize 2 2, QSize 3 3])
   \<and> itemAt [QSize 1 1, QSize 2 2, QSize 3 3] (- 1) = Inr None
   \<and> takeAt [QSize 1 1, QSize 2 2, QSize 3 3] (- 1) = Inr (None, [QSize 1 1, QSize 2 2, QSize 3 3])
   \<and> itemAt [QSize 1 1, QSize 2 2, QSize 3 3] 1 = Inr (Some (QSize 2 2))
   \<and> takeAt [QSize 1 1, QSize 2 2, QSize 3 3] 1 = Inr (Some (QSize 2 2), [QSize 1 1, QSize 3 3])"
  using itemAt_takeAt_guarded [of 3 "[QSize 1 1, QSize 2 2, QSize 3 3]"]
    itemAt_takeAt_guarded [of "- 1" "[QSize 1 1, QSize 2 2, QSize 3 3]"]
    itemAt_takeAt_guarded [of 1 "[QSize 1 1, QSize 2 2, QSize 3 3]"]
  by (simp add: count_def)

section \<open>Properties of the mirror file\<close>

subsection \<open>Reading back what was written\<close>









subsection \<open>The buttons after a rebuild\<close>


lemma filter_removeAll:
  "filter (\<lambda>w. w \<notin> B) (removeAll a xs) = filter (\<lambda>w. w \<notin> insert a B) xs"
  by (induction xs) auto

lemma fold_remove_button_fields:
  "buttons (fold remove_button bs d) = buttons d
   \<and> flow (fold remove_button bs d) = filter (\<lambda>w. w \<notin> btn_id ` set bs) (flow d)
   \<and> button_group (fold remove_button bs d) = button_group d
   \<and> combo (fold remove_button bs d) = combo d
   \<and> fresh (fold remove_button bs d) = fresh d
   \<and> printed (fold remove_button bs d) = printed d"
proof (induction bs arbitrary: d)
  case Nil
  show ?case by simp
next
  case (Cons b bs)
  have "filter (\<lambda>w. w \<notin> btn_id ` set bs) (removeAll (btn_id b) (flow d))
          = filter (\<lambda>w. w \<notin> btn_id ` set (b # bs)) (flow d)"
    using filter_removeAll [of "btn_id ` set bs" "btn_id b" "flow d"] by simp
  with Cons [of "remove_button b d"] show ?case
    by (simp add: remove_button_def)
qed







subsection \<open>A mirror file that is missing or cannot be read\<close>

text \<open>
  C9. When the mirror file is missing or reading it fails, \<open>_rebuild_buttons\<close> raises
  nothing and leaves the button set empty: \<open>self.buttons\<close> is empty, none of the previous
  buttons is left in the flow layout, and no widget is created (nothing is added to the
  layout or to the button group). A missing file prints nothing; a failed read prints one
  line naming the error.
\<close>

theorem rebuild_buttons_read_failure:
  assumes "tags_file fs = None \<or> read_error fs \<noteq> None"
  shows "case rebuild_buttons fs d of
           Inl e \<Rightarrow> False
         | Inr d' \<Rightarrow>
             buttons d' = []
             \<and> (\<forall>b \<in> set (buttons d). btn_id b \<notin> set (flow d'))
             \<and> set (flow d') \<subseteq> set (flow d)
             \<and> button_group d' = button_group d
             \<and> fresh d' = fresh d
             \<and> printed d' =
                 (if tags_file fs = None then printed d
                  else printed d @ [DOCKER_TITLE @ '': Error reading tags.txt: ''
                                      @ exception_str (the (read_error fs))])"
proof (cases "tags_file fs = None")
  case True
  then show ?thesis
    by (auto simp add: rebuild_buttons_def Let_def fold_remove_button_fields)
next
  case False
  with assms obtain e where e: "read_error fs = Some e" by auto
  then have "read_tags_file fs = Inl e"
    by (simp add: read_tags_file_def)
  with False e show ?thesis
    by (auto simp add: rebuild_buttons_def Let_def print_def fold_remove_button_fields)
qed

theorem rebuild_buttons_read_failure_witness:
  "rebuild_buttons
     \<lparr>tags_file = None, os = POSIX, write_error = None, read_error = None\<rparr>
     \<lparr>buttons = [\<lparr>btn_id = 0, btn_text = ascii ''Ink'', checkable = True, checked = True\<rparr>,
                 \<lparr>btn_id = 1, btn_text = ascii ''Wet'', checkable = True, checked = False\<rparr>],
      flow = [0, 1], button_group = [0, 1], deleted_later = [],
      combo = None, changing = False, fresh = 2, printed = []\<rparr>
   = Inr \<lparr>buttons = [], flow = [], button_group = [0, 1], deleted_later = [0, 1],
          combo = None, changing = False, fresh = 2, printed = []\<rparr>
   \<and> rebuild_buttons
     \<lparr>tags_file = Some (ascii ''Ink''), os = POSIX, write_error = None,
      read_error = Some (OSError ''Permission denied'')\<rparr>
     \<lparr>buttons = [\<lparr>btn_id = 0, btn_text = ascii ''Ink'', checkable = True, checked = True\<rparr>,
                 \<lparr>btn_id = 1, btn_text = ascii ''Wet'', checkable = True, checked = False\<rparr>],
      flow = [0, 1], button_group = [0, 1], deleted_later = [],
      combo = None, changing = False, fresh = 2, printed = []\<rparr>
   = Inr \<lparr>buttons = [], flow = [], button_group = [0, 1], deleted_later = [0, 1],
          combo = None, changing = False, fresh = 2,
          printed = [''Brush Tag Selector: Error reading tags.txt: Permission denied'']\<rparr>"
proof -
  let ?d = "\<lparr>buttons = [\<lparr>btn_id = 0, btn_text = ascii ''Ink'', checkable = True, checked = True\<rparr>,
                 \<lparr>btn_id = 1, btn_text = ascii ''Wet'', checkable = True, checked = False\<rparr>],
      flow = [0, 1], button_group = [0, 1], deleted_later = [],
      combo = None, changing = False, fresh = 2, printed = []\<rparr>"
  let ?fs1 = "\<lparr>tags_file = None, os = POSIX, write_error = None, read_error = None\<rparr>"
  let ?fs2 = "\<lparr>tags_file = Some (ascii ''Ink''), os = POSIX, write_error = None,
      read_error = Some (OSError ''Permission denied'')\<rparr>"
  have a: "tags_file ?fs1 = None \<or> read_error ?fs1 \<noteq> None" by simp
  have b: "tags_file ?fs2 = None \<or> read_error ?fs2 \<noteq> None" by simp
  have e1: "rebuild_buttons ?fs1 ?d = Inr \<lparr>buttons = [], flow = [], button_group = [0, 1], deleted_later = [0, 1],
          combo = None, changing = False, fresh = 2, printed = []\<rparr>"
    by code_simp
  have e2: "rebuild_buttons ?fs2 ?d = Inr \<lparr>buttons = [], flow = [], button_group = [0, 1], deleted_later = [0, 1],
          combo = None, changing = False, fresh = 2,
          printed = [''Brush Tag Selector: Error reading tags.txt: Permission denied'']\<rparr>"
    by code_simp
  from rebuild_buttons_read_failure [OF a, of ?d] rebuild_buttons_read_failure [OF b, of ?d] e1 e2
  show ?thesis by simp
qed

end
